theory Spec2Isabelle
  imports Complex_Main
begin

section \<open>Numbers, values and errors\<close>

text \<open>
  The development embeds \<^verbatim>\<open>tbilby/core/prior/TransInterped.py\<close>, a prior built by
  linear interpolation of a tabulated density. Python floats are modelled as exact
  rationals: rounding is outside the model, and the claims proved below are those that do
  not depend on it. The one place where the code produces nan or infinite values without
  raising is the division of the samples by a zero integral; such values are kept as tokens.

  The outcome of a call is an exception or a value. Two outcomes are not exceptions:
  \<open>NonFinite\<close> says that the call returns and that what it returns holds a nan or an
  infinity; \<open>Untracked\<close> says that the call works on an interpolant whose abscissae are
  not all finite, where the model does not determine what the code does.
  A \<open>ValueError\<close> carries the fixed part of its message.
\<close>

datatype error = ValueError string | TypeError | AttributeError | NonFinite | Untracked

text \<open>A float that may be infinite or nan, with the division of numpy (the zero divisor
  taken as positive zero) and the equality of IEEE, under which nan differs from itself.\<close>

datatype float64 = Fin rat | PInf | NInf | NaN

definition np_divide :: "rat \<Rightarrow> rat \<Rightarrow> float64" where
  "np_divide y t =
     (if t \<noteq> 0 then Fin (y / t) else if 0 < y then PInf else if y < 0 then NInf else NaN)"

fun finite_part :: "float64 \<Rightarrow> rat option" where
  "finite_part (Fin r) = Some r"
| "finite_part v = None"

fun float_eq :: "float64 \<Rightarrow> float64 \<Rightarrow> bool" where
  "float_eq (Fin a) (Fin b) = (a = b)"
| "float_eq PInf PInf = True"
| "float_eq NInf NInf = True"
| "float_eq u v = False"

text \<open>Values a caller passes to the setters and to \<open>prob\<close>, \<open>cdf\<close>, \<open>rescale\<close>:
  a Python float, a Python int, or a one-dimensional numpy array.\<close>

datatype pyval = PyFloat rat | PyInt int | PyArray "rat list"

text \<open>What calling an \<open>interp1d\<close> object returns: an array of the shape of its argument,
  of shape \<open>()\<close> for a scalar argument.\<close>

datatype ndarray = Arr0 rat | Arr1 "rat list"

text \<open>The grid \<open>xx\<close> and the samples \<open>_yy\<close>: one-dimensional, or two-dimensional
  (rows) once \<open>np.linspace\<close> has been given array-valued bounds.\<close>

datatype 'a grid = Grid1 "'a list" | Grid2 "'a list list"

fun grid_map :: "('a \<Rightarrow> 'b) \<Rightarrow> 'a grid \<Rightarrow> 'b grid" where
  "grid_map f (Grid1 xs) = Grid1 (map f xs)"
| "grid_map f (Grid2 rows) = Grid2 (map (map f) rows)"

text \<open>\<open>np.array_equal\<close>: the same shape and every pair of elements equal.\<close>

fun array_equal :: "('a \<Rightarrow> 'a \<Rightarrow> bool) \<Rightarrow> 'a grid \<Rightarrow> 'a grid \<Rightarrow> bool" where
  "array_equal e (Grid1 xs) (Grid1 ys) = list_all2 e xs ys"
| "array_equal e (Grid2 xs) (Grid2 ys) = list_all2 (list_all2 e) xs ys"
| "array_equal e g h = False"

text \<open>The result of a comparison: a Python bool for scalars, a bool array elementwise.\<close>

datatype pybool = PyBool bool | BoolArray "bool list"

fun isinstance_float :: "pyval \<Rightarrow> bool" where
  "isinstance_float (PyFloat a) = True"
| "isinstance_float (PyInt i) = False"
| "isinstance_float (PyArray xs) = False"

fun py_lt :: "pyval \<Rightarrow> rat \<Rightarrow> pybool" where
  "py_lt (PyFloat a) bnd = PyBool (a < bnd)"
| "py_lt (PyInt i) bnd = PyBool (of_int i < bnd)"
| "py_lt (PyArray xs) bnd = BoolArray (map (\<lambda>a. a < bnd) xs)"

fun py_gt :: "pyval \<Rightarrow> rat \<Rightarrow> pybool" where
  "py_gt (PyFloat a) bnd = PyBool (bnd < a)"
| "py_gt (PyInt i) bnd = PyBool (bnd < of_int i)"
| "py_gt (PyArray xs) bnd = BoolArray (map (\<lambda>a. bnd < a) xs)"

text \<open>Python's builtin \<open>any\<close> iterates its argument: a bool is not iterable.\<close>

fun py_any :: "pybool \<Rightarrow> error + bool" where
  "py_any (PyBool b) = Inl TypeError"
| "py_any (BoolArray bs) = Inr (True \<in> set bs)"

text \<open>The truth value an \<open>if\<close> takes: an array of several elements has none.\<close>

fun py_truth :: "pybool \<Rightarrow> error + bool" where
  "py_truth (PyBool b) = Inr b"
| "py_truth (BoolArray []) = Inr False"
| "py_truth (BoolArray [b]) = Inr b"
| "py_truth (BoolArray (b # c # bs)) = Inl (ValueError ''The truth value of an array is ambiguous'')"

fun py_min :: "rat list \<Rightarrow> error + rat" where
  "py_min [] = Inl (ValueError ''min() arg is an empty sequence'')"
| "py_min (x # xs) = Inr (fold min xs x)"

fun py_max :: "rat list \<Rightarrow> error + rat" where
  "py_max [] = Inl (ValueError ''max() arg is an empty sequence'')"
| "py_max (x # xs) = Inr (fold max xs x)"

text \<open>\<open>np.nanmax\<close> and \<open>np.nanmin\<close> of a pair whose second component may be nan
  (\<open>None\<close>, the default of the constructor's \<open>minimum\<close> and \<open>maximum\<close>).\<close>

fun nanmax :: "rat \<Rightarrow> rat option \<Rightarrow> rat" where
  "nanmax a None = a"
| "nanmax a (Some b) = max a b"

fun nanmin :: "rat \<Rightarrow> rat option \<Rightarrow> rat" where
  "nanmin a None = a"
| "nanmin a (Some b) = min a b"

fun map_err :: "('a \<Rightarrow> error + 'b) \<Rightarrow> 'a list \<Rightarrow> error + 'b list" where
  "map_err f [] = Inr []"
| "map_err f (x # xs) =
     (case f x of Inl e \<Rightarrow> Inl e
      | Inr y \<Rightarrow> (case map_err f xs of Inl e \<Rightarrow> Inl e | Inr ys \<Rightarrow> Inr (y # ys)))"

section \<open>The numerical library\<close>

subsection \<open>numpy: linspace, trapz, cumtrapz\<close>

text \<open>\<open>np.linspace(start, stop, num)\<close>: \<open>num\<close> evenly spaced points, the last one set to
  \<open>stop\<close> when there are at least two.\<close>

definition linspace :: "rat \<Rightarrow> rat \<Rightarrow> nat \<Rightarrow> rat list" where
  "linspace start stop num =
     (if num \<le> 1 then replicate num start
      else (map (\<lambda>i. start + of_nat i * ((stop - start) / of_nat (num - 1))) [0..<num])
             [num - 1 := stop])"

fun as_list :: "pyval \<Rightarrow> rat list" where
  "as_list (PyFloat a) = [a]"
| "as_list (PyInt i) = [of_int i]"
| "as_list (PyArray xs) = xs"

fun is_scalar :: "pyval \<Rightarrow> bool" where
  "is_scalar (PyArray xs) = False"
| "is_scalar v = True"

text \<open>Broadcasting of two one-dimensional shapes (a scalar counts as length one).\<close>

definition broadcast2 :: "rat list \<Rightarrow> rat list \<Rightarrow> error + (rat list \<times> rat list)" where
  "broadcast2 as bs =
     (if length as = length bs then Inr (as, bs)
      else if length as = 1 then Inr (replicate (length bs) (hd as), bs)
      else if length bs = 1 then Inr (as, replicate (length as) (hd bs))
      else Inl (ValueError ''operands could not be broadcast together''))"

text \<open>\<open>np.linspace\<close> on the stored bounds: a one-dimensional grid for two scalars, otherwise
  \<open>num\<close> rows, one column per element of the broadcast bounds.\<close>

definition linspace_nd :: "pyval \<Rightarrow> pyval \<Rightarrow> nat \<Rightarrow> error + rat grid" where
  "linspace_nd start stop num =
     (if is_scalar start \<and> is_scalar stop
      then Inr (Grid1 (linspace (hd (as_list start)) (hd (as_list stop)) num))
      else (case broadcast2 (as_list start) (as_list stop) of
              Inl e \<Rightarrow> Inl e
            | Inr (as, bs) \<Rightarrow>
                Inr (Grid2 (map (\<lambda>i. map2 (\<lambda>a b. linspace a b num ! i) as bs) [0..<num]))))"

fun grid_len :: "'a grid \<Rightarrow> nat" where
  "grid_len (Grid1 xs) = length xs"
| "grid_len (Grid2 rows) = length rows"

text \<open>\<open>np.trapz(y, x)\<close>, the trapezoid rule, and \<open>cumtrapz(y, x, initial=0)\<close>, its
  running sums.\<close>

fun trapz :: "rat list \<Rightarrow> rat list \<Rightarrow> rat" where
  "trapz (y0 # y1 # ys) (x0 # x1 # xs) = (x1 - x0) * (y1 + y0) / 2 + trapz (y1 # ys) (x1 # xs)"
| "trapz ys xs = 0"

fun cumtrapz_from :: "rat \<Rightarrow> rat list \<Rightarrow> rat list \<Rightarrow> rat list" where
  "cumtrapz_from acc (y0 # y1 # ys) (x0 # x1 # xs) =
     (acc + (x1 - x0) * (y1 + y0) / 2)
       # cumtrapz_from (acc + (x1 - x0) * (y1 + y0) / 2) (y1 # ys) (x1 # xs)"
| "cumtrapz_from acc ys xs = []"

definition cumtrapz :: "rat list \<Rightarrow> rat list \<Rightarrow> rat list" where
  "cumtrapz ys xs = 0 # cumtrapz_from 0 ys xs"

text \<open>The same running sums over samples that may be infinite or nan (\<open>None\<close>): a sum
  that has met such a sample is itself infinite or nan, and stays so.\<close>

fun cumtrapz_opt_from :: "rat option \<Rightarrow> rat option list \<Rightarrow> rat list \<Rightarrow> rat option list" where
  "cumtrapz_opt_from acc (y0 # y1 # ys) (x0 # x1 # xs) =
     (case (acc, y0, y1) of
        (Some a, Some u, Some v) \<Rightarrow> Some (a + (x1 - x0) * (v + u) / 2)
      | _ \<Rightarrow> None)
       # cumtrapz_opt_from
           (case (acc, y0, y1) of
              (Some a, Some u, Some v) \<Rightarrow> Some (a + (x1 - x0) * (v + u) / 2)
            | _ \<Rightarrow> None) (y1 # ys) (x1 # xs)"
| "cumtrapz_opt_from acc ys xs = []"

definition cumtrapz_opt :: "rat option list \<Rightarrow> rat list \<Rightarrow> rat option list" where
  "cumtrapz_opt ys xs = Some 0 # cumtrapz_opt_from (Some 0) ys xs"

subsection \<open>scipy: interp1d\<close>

text \<open>
  An \<open>interp1d\<close> object of kind linear: its nodes, sorted by abscissa with a stable sort
  (\<open>assume_sorted=False\<close>), whether a query outside the nodes raises, and the two fill values.
  An ordinate may be infinite or nan (\<open>None\<close>). An object built on abscissae that are
  not all finite is kept without nodes.
\<close>

record interp1d =
  nodes :: "(rat \<times> rat option) list"
  bounds_error :: bool
  fill_below :: rat
  fill_above :: rat

definition interp1d_init ::
  "rat grid \<Rightarrow> rat option list \<Rightarrow> bool \<Rightarrow> rat \<Rightarrow> rat \<Rightarrow> error + interp1d" where
  "interp1d_init x y be fb fa =
     (case x of
        Grid2 rows \<Rightarrow> Inl (ValueError ''the x array must have exactly one dimension.'')
      | Grid1 xs \<Rightarrow>
          if length xs \<noteq> length y
          then Inl (ValueError ''x and y arrays must be equal in length along interpolation axis.'')
          else if xs = [] then Inl (ValueError ''x and y arrays must have at least 1 entries'')
          else Inr \<lparr>nodes = sort_key fst (zip xs y), bounds_error = be,
                    fill_below = fb, fill_above = fa\<rparr>)"

text \<open>The same constructor for abscissae that may be infinite or nan.\<close>

definition interp1d_init_opt ::
  "rat option list \<Rightarrow> rat option list \<Rightarrow> bool \<Rightarrow> rat \<Rightarrow> rat \<Rightarrow> error + interp1d" where
  "interp1d_init_opt x y be fb fa =
     (case those x of
        Some xs \<Rightarrow> interp1d_init (Grid1 xs) y be fb fa
      | None \<Rightarrow>
          if length x \<noteq> length y
          then Inl (ValueError ''x and y arrays must be equal in length along interpolation axis.'')
          else Inr \<lparr>nodes = [], bounds_error = be, fill_below = fb, fill_above = fa\<rparr>)"

text \<open>
  The value inside the range of the nodes, as \<open>np.interp\<close> computes it: the segment is the
  one whose left node is the last node not above the query; a query equal to the left node
  returns that node's value, the last node returns its own value; inside a segment with an
  infinite or nan end the value is infinite or nan.
\<close>

fun lin_walk :: "(rat \<times> rat option) list \<Rightarrow> rat \<Rightarrow> rat option" where
  "lin_walk [] q = None"
| "lin_walk [(x0, y0)] q = y0"
| "lin_walk ((x0, y0) # (x1, y1) # ps) q =
     (if q < x1
      then (if q = x0 then y0
            else (case (y0, y1) of
                    (Some u, Some v) \<Rightarrow> Some ((v - u) / (x1 - x0) * (q - x0) + u)
                  | _ \<Rightarrow> None))
      else lin_walk ((x1, y1) # ps) q)"

text \<open>One query: below the first node or above the last one the call raises or returns the
  fill value.\<close>

definition interp1d_at :: "interp1d \<Rightarrow> rat \<Rightarrow> error + rat" where
  "interp1d_at f q =
     (case nodes f of
        [] \<Rightarrow> Inl Untracked
      | p # ps \<Rightarrow>
          if q < fst p
          then (if bounds_error f
                then Inl (ValueError ''A value in x_new is below the interpolation range.'')
                else Inr (fill_below f))
          else if fst (last (p # ps)) < q
          then (if bounds_error f
                then Inl (ValueError ''A value in x_new is above the interpolation range.'')
                else Inr (fill_above f))
          else (case lin_walk (p # ps) q of
                  None \<Rightarrow> Inl NonFinite
                | Some r \<Rightarrow> Inr r))"

text \<open>A call on a float, an int or an array. numpy holds a Python int outside the range of
  its 64-bit integers as an object, which \<open>interp1d\<close> refuses.\<close>

fun interp1d_call :: "interp1d \<Rightarrow> pyval \<Rightarrow> error + ndarray" where
  "interp1d_call f (PyFloat q) =
     (case interp1d_at f q of Inl e \<Rightarrow> Inl e | Inr r \<Rightarrow> Inr (Arr0 r))"
| "interp1d_call f (PyInt i) =
     (if - (2 ^ 63) \<le> i \<and> i < 2 ^ 64
      then (case interp1d_at f (of_int i) of Inl e \<Rightarrow> Inl e | Inr r \<Rightarrow> Inr (Arr0 r))
      else Inl (ValueError ''object arrays are not supported''))"
| "interp1d_call f (PyArray qs) =
     (case map_err (interp1d_at f) qs of Inl e \<Rightarrow> Inl e | Inr rs \<Rightarrow> Inr (Arr1 rs))"

fun interp1d_grid :: "interp1d \<Rightarrow> rat grid \<Rightarrow> error + rat grid" where
  "interp1d_grid f (Grid1 qs) =
     (case map_err (interp1d_at f) qs of Inl e \<Rightarrow> Inl e | Inr rs \<Rightarrow> Inr (Grid1 rs))"
| "interp1d_grid f (Grid2 rows) =
     (case map_err (map_err (interp1d_at f)) rows of
        Inl e \<Rightarrow> Inl e | Inr rs \<Rightarrow> Inr (Grid2 rs))"

section \<open>The class TransInterped\<close>

text \<open>
  The attributes of an instance. Those that \<open>__init__\<close> sets to \<open>None\<close> or that exist only
  after a later assignment are options. The display metadata (name, label, unit, boundary)
  takes no part in any computation and is left out.
\<close>

record TransInterped =
  xx :: "rat grid"
  min_limit :: rat
  max_limit :: rat
  yy_priv :: "float64 grid"
  YY :: "rat option list option"
  YYnotNorm :: "rat list option"
  probability_density :: "interp1d option"
  cumulative_distribution :: "interp1d option"
  inverse_cumulative_distribution :: "interp1d option"
  Normalizer_calc :: "interp1d option"
  Inv_Normalizer_calc :: "interp1d option"
  all_interpolated :: interp1d
  trans_min :: rat
  trans_max :: rat
  init_once :: bool
  minimum_priv :: "pyval option"
  maximum_priv :: "pyval option"

text \<open>An operation on an instance returns the exception it raised, if any, and the instance
  as the operation left it.\<close>

type_synonym outcome = "error option \<times> TransInterped"

subsection \<open>The property setters\<close>

definition set_minimum :: "TransInterped \<Rightarrow> pyval \<Rightarrow> outcome" where
  "set_minimum s minimum =
     (if isinstance_float minimum
      then (case py_truth (py_lt minimum (min_limit s)) of
              Inl e \<Rightarrow> (Some e, s)
            | Inr True \<Rightarrow> (Some (ValueError ''Minimum cannot be set below''), s)
            | Inr False \<Rightarrow> (None, s\<lparr>minimum_priv := Some minimum\<rparr>))
      else (case py_any (py_lt minimum (min_limit s)) of
              Inl e \<Rightarrow> (Some e, s)
            | Inr True \<Rightarrow> (Some (ValueError ''Minimum cannot be set below''), s)
            | Inr False \<Rightarrow> (None, s\<lparr>minimum_priv := Some minimum\<rparr>)))"

definition set_maximum :: "TransInterped \<Rightarrow> pyval \<Rightarrow> outcome" where
  "set_maximum s maximum =
     (if isinstance_float maximum
      then (case py_truth (py_gt maximum (max_limit s)) of
              Inl e \<Rightarrow> (Some e, s)
            | Inr True \<Rightarrow> (Some (ValueError ''Maximum cannot be set above''), s)
            | Inr False \<Rightarrow> (None, s\<lparr>maximum_priv := Some maximum\<rparr>))
      else (case py_any (py_gt maximum (max_limit s)) of
              Inl e \<Rightarrow> (Some e, s)
            | Inr True \<Rightarrow> (Some (ValueError ''Minimum cannot be set below''), s)
            | Inr False \<Rightarrow> (None, s\<lparr>maximum_priv := Some maximum\<rparr>)))"

subsection \<open>Building the interpolants\<close>

text \<open>
  \<open>_initialize_attributes\<close>. The guard returns at once when the interpolants exist. The
  notice printed for a density that is not normalised has no effect on the instance.
  Dividing \<open>_yy\<close> by a zero integral does not raise: it fills the samples with nan or
  infinities, and with them the cumulative sums after the first and the interpolants built
  on them. A two-dimensional grid makes \<open>np.trapz(...) != 1\<close> an array without a truth
  value, or \<open>interp1d\<close> refuse its \<open>x\<close>; grid and samples always have one length here, and
  the samples are finite, as \<open>_update_instance\<close> evaluates the master interpolant at the
  grid.
\<close>

definition initialize_attributes :: "TransInterped \<Rightarrow> outcome" where
  "initialize_attributes s =
     (if init_once s then (None, s)
      else (case (xx s, yy_priv s) of
        (Grid1 xs, Grid1 vs) \<Rightarrow>
          (case those (map finite_part vs) of
             None \<Rightarrow> (Some Untracked, s)
           | Some ys \<Rightarrow>
          if length xs \<noteq> length ys
          then (Some (ValueError ''operands could not be broadcast together''), s)
          else
          (let cum = cumtrapz ys xs;
               s1 = s\<lparr>YYnotNorm := Some cum\<rparr>
           in case interp1d_init (Grid1 xs) (map Some cum) False 0 0 of
                Inl e \<Rightarrow> (Some e, s1)
              | Inr nc \<Rightarrow>
           (let s2 = s1\<lparr>Normalizer_calc := Some nc\<rparr>
            in case interp1d_init (Grid1 cum) (map Some xs) False 0 0 of
                Inl e \<Rightarrow> (Some e, s2)
              | Inr inc \<Rightarrow>
           (let s3 = s2\<lparr>Inv_Normalizer_calc := Some inc\<rparr>;
                total = trapz ys xs;
                ys' = map (\<lambda>y. np_divide y total) ys;
                cdf0 = cumtrapz_opt (map finite_part ys') xs;
                cdf1 = cdf0[length cdf0 - 1 := Some 1];
                s4 = s3\<lparr>yy_priv := Grid1 ys', YY := Some cdf1\<rparr>
            in case interp1d_init (Grid1 xs) (map finite_part ys') False 0 0 of
                Inl e \<Rightarrow> (Some e, s4)
              | Inr pd \<Rightarrow>
           (let s5 = s4\<lparr>probability_density := Some pd\<rparr>
            in case interp1d_init (Grid1 xs) cdf1 False 0 1 of
                Inl e \<Rightarrow> (Some e, s5)
              | Inr cd \<Rightarrow>
           (let s6 = s5\<lparr>cumulative_distribution := Some cd\<rparr>
            in case interp1d_init_opt cdf1 (map Some xs) True 0 0 of
                Inl e \<Rightarrow> (Some e, s6)
              | Inr icd \<Rightarrow>
                (None, s6\<lparr>inverse_cumulative_distribution := Some icd,
                          init_once := True\<rparr>)))))))
      | _ \<Rightarrow> (Some (ValueError ''two-dimensional grid''), s)))"

text \<open>\<open>_update_instance\<close>: the grid is laid evenly between the current bounds, the samples
  are the master interpolant on it.\<close>

definition update_instance :: "TransInterped \<Rightarrow> outcome" where
  "update_instance s =
     (case (minimum_priv s, maximum_priv s) of
        (Some mn, Some mx) \<Rightarrow>
          (case linspace_nd mn mx (grid_len (xx s)) of
             Inl e \<Rightarrow> (Some e, s)
           | Inr g \<Rightarrow>
               (let s1 = s\<lparr>xx := g\<rparr>
                in case interp1d_grid (all_interpolated s1) g of
                     Inl e \<Rightarrow> (Some e, s1)
                   | Inr ys \<Rightarrow> initialize_attributes (s1\<lparr>yy_priv := grid_map Fin ys\<rparr>)))
      | _ \<Rightarrow> (Some AttributeError, s))"

definition set_yy :: "TransInterped \<Rightarrow> rat list \<Rightarrow> outcome" where
  "set_yy s yy =
     (let s1 = s\<lparr>yy_priv := Grid1 (map Fin yy)\<rparr>
      in case interp1d_init (xx s1) (map Some yy) False 0 0 of
           Inl e \<Rightarrow> (Some e, s1)
         | Inr f \<Rightarrow> update_instance (s1\<lparr>all_interpolated := f\<rparr>))"

subsection \<open>Construction\<close>

text \<open>
  Modelled from the spec: the constructor of the base class \<open>bilby.core.prior.Prior\<close>, which
  is not part of the sources. It fails when the minimum it is given exceeds the maximum, and
  otherwise assigns the two bounds through the property setters.
\<close>

definition Prior_init :: "TransInterped \<Rightarrow> rat \<Rightarrow> rat \<Rightarrow> outcome" where
  "Prior_init s minimum maximum =
     (if maximum < minimum then (Some (ValueError ''maximum < minimum''), s)
      else (case set_minimum s (PyFloat minimum) of
              (Some e, s1) \<Rightarrow> (Some e, s1)
            | (None, s1) \<Rightarrow> set_maximum s1 (PyFloat maximum)))"

text \<open>\<open>__init__\<close>: an exception leaves no instance behind.\<close>

definition TransInterped_init ::
  "rat list \<Rightarrow> rat list \<Rightarrow> rat option \<Rightarrow> rat option \<Rightarrow> error + TransInterped" where
  "TransInterped_init xs ys minimum maximum =
     (case py_min xs of Inl e \<Rightarrow> Inl e | Inr lo \<Rightarrow>
      case py_max xs of Inl e \<Rightarrow> Inl e | Inr hi \<Rightarrow>
      case interp1d_init (Grid1 xs) (map Some ys) False 0 0 of Inl e \<Rightarrow> Inl e | Inr f \<Rightarrow>
      (let mn = nanmax lo minimum;
           mx = nanmin hi maximum;
           s = \<lparr>xx = Grid1 xs, min_limit = lo, max_limit = hi, yy_priv = Grid1 (map Fin ys),
                YY = None, YYnotNorm = None, probability_density = None,
                cumulative_distribution = None, inverse_cumulative_distribution = None,
                Normalizer_calc = None, Inv_Normalizer_calc = None,
                all_interpolated = f, trans_min = mn, trans_max = mx,
                init_once = False, minimum_priv = None, maximum_priv = None\<rparr>
       in case Prior_init s mn mx of
            (Some e, s1) \<Rightarrow> Inl e
          | (None, s1) \<Rightarrow>
              (case update_instance s1 of
                 (Some e, s2) \<Rightarrow> Inl e
               | (None, s2) \<Rightarrow> Inr s2)))"

subsection \<open>Evaluation\<close>

definition prob :: "TransInterped \<Rightarrow> pyval \<Rightarrow> error + ndarray" where
  "prob s val =
     (case probability_density s of
        None \<Rightarrow> Inl TypeError
      | Some f \<Rightarrow> interp1d_call f val)"

definition cdf :: "TransInterped \<Rightarrow> pyval \<Rightarrow> error + ndarray" where
  "cdf s val =
     (case cumulative_distribution s of
        None \<Rightarrow> Inl TypeError
      | Some f \<Rightarrow> interp1d_call f val)"

text \<open>\<open>y_mins + (y_max - y_mins) * val\<close>, elementwise over an array.\<close>

fun y_modifiy :: "rat \<Rightarrow> rat \<Rightarrow> pyval \<Rightarrow> pyval" where
  "y_modifiy y_mins y_max (PyFloat v) = PyFloat (y_mins + (y_max - y_mins) * v)"
| "y_modifiy y_mins y_max (PyInt i) = PyFloat (y_mins + (y_max - y_mins) * of_int i)"
| "y_modifiy y_mins y_max (PyArray vs) =
     PyArray (map (\<lambda>v. y_mins + (y_max - y_mins) * v) vs)"

text \<open>The last step of \<open>rescale\<close>: an array of shape \<open>()\<close> becomes a float.\<close>

fun unwrap0 :: "ndarray \<Rightarrow> pyval" where
  "unwrap0 (Arr0 r) = PyFloat r"
| "unwrap0 (Arr1 rs) = PyArray rs"

definition rescale :: "TransInterped \<Rightarrow> pyval \<Rightarrow> error + pyval" where
  "rescale s val =
     (case (Normalizer_calc s, Inv_Normalizer_calc s) of
        (Some nc, Some inc) \<Rightarrow>
          (case interp1d_at nc (trans_min s) of Inl e \<Rightarrow> Inl e | Inr y_mins \<Rightarrow>
           case interp1d_at nc (trans_max s) of Inl e \<Rightarrow> Inl e | Inr y_max \<Rightarrow>
           case interp1d_call inc (y_modifiy y_mins y_max val) of
             Inl e \<Rightarrow> Inl e
           | Inr rescaled \<Rightarrow> Inr (unwrap0 rescaled))
      | _ \<Rightarrow> Inl AttributeError)"

text \<open>\<open>__eq__\<close>: the other object is an instance of the same class or of another one.\<close>

datatype pyobject = Instance TransInterped | Foreign

fun eq :: "TransInterped \<Rightarrow> pyobject \<Rightarrow> bool" where
  "eq s Foreign = False"
| "eq s (Instance other) =
     (array_equal (=) (xx s) (xx other) \<and> array_equal float_eq (yy_priv s) (yy_priv other))"

text \<open>The instances a caller can hold: what the setters make of a constructed instance,
  whether a call raised or not.\<close>

inductive evolves :: "TransInterped \<Rightarrow> TransInterped \<Rightarrow> bool" where
  evolves_refl: "evolves s s"
| evolves_minimum: "evolves s0 s \<Longrightarrow> set_minimum s v = (r, s') \<Longrightarrow> evolves s0 s'"
| evolves_maximum: "evolves s0 s \<Longrightarrow> set_maximum s v = (r, s') \<Longrightarrow> evolves s0 s'"
| evolves_yy: "evolves s0 s \<Longrightarrow> set_yy s ys = (r, s') \<Longrightarrow> evolves s0 s'"

section \<open>Auxiliary notions for the proofs\<close>

text \<open>What the first build fixes: the five interpolants, the snapshot of the bounds, the hard
  limits and the guard.\<close>

definition frozen_part ::
  "TransInterped \<Rightarrow> interp1d option \<times> interp1d option \<times> interp1d option \<times> interp1d option
     \<times> interp1d option \<times> rat \<times> rat \<times> rat \<times> rat \<times> bool" where
  "frozen_part s = (probability_density s, cumulative_distribution s,
      inverse_cumulative_distribution s, Normalizer_calc s, Inv_Normalizer_calc s,
      trans_min s, trans_max s, min_limit s, max_limit s, init_once s)"

text \<open>The value of a call that returns a finite number.\<close>

definition interp1d_val :: "interp1d \<Rightarrow> rat \<Rightarrow> rat" where
  "interp1d_val f q = (case interp1d_at f q of Inr r \<Rightarrow> r | Inl e \<Rightarrow> 0)"

text \<open>The instance that the first run of \<open>_update_instance\<close> makes of a fresh instance
  \<open>p\<close> with float bounds \<open>a\<close> and \<open>b\<close>, written out field by field.\<close>

definition built :: "TransInterped \<Rightarrow> rat \<Rightarrow> rat \<Rightarrow> TransInterped" where
  "built p a b =
     (let g = linspace a b (grid_len (xx p));
          ry = map (interp1d_val (all_interpolated p)) g;
          cum = cumtrapz ry g;
          ny = map (\<lambda>y. np_divide y (trapz ry g)) ry;
          cdf1 = (cumtrapz_opt (map finite_part ny) g)[length g - 1 := Some 1]
      in p\<lparr>xx := Grid1 g, yy_priv := Grid1 ny, YY := Some cdf1, YYnotNorm := Some cum,
           probability_density := Some \<lparr>nodes = sort_key fst (zip g (map finite_part ny)),
              bounds_error = False, fill_below = 0, fill_above = 0\<rparr>,
           cumulative_distribution := Some \<lparr>nodes = sort_key fst (zip g cdf1),
              bounds_error = False, fill_below = 0, fill_above = 1\<rparr>,
           inverse_cumulative_distribution :=
              Some (projr (interp1d_init_opt cdf1 (map Some g) True 0 0)),
           Normalizer_calc := Some \<lparr>nodes = sort_key fst (zip g (map Some cum)),
              bounds_error = False, fill_below = 0, fill_above = 0\<rparr>,
           Inv_Normalizer_calc := Some \<lparr>nodes = sort_key fst (zip cum (map Some g)),
              bounds_error = False, fill_below = 0, fill_above = 0\<rparr>,
           init_once := True\<rparr>)"

text \<open>The instance as \<open>__init__\<close> holds it when it calls \<open>_update_instance\<close>: the raw
  arrays, the master interpolant, and the clamped bounds assigned by the base class.\<close>

definition fresh :: "rat list \<Rightarrow> rat list \<Rightarrow> rat option \<Rightarrow> rat option \<Rightarrow> TransInterped" where
  "fresh xs ys mn mx =
     (let lo = fold min (tl xs) (hd xs);
          hi = fold max (tl xs) (hd xs)
      in \<lparr>xx = Grid1 xs, min_limit = lo, max_limit = hi, yy_priv = Grid1 (map Fin ys),
           YY = None, YYnotNorm = None, probability_density = None,
           cumulative_distribution = None, inverse_cumulative_distribution = None,
           Normalizer_calc = None, Inv_Normalizer_calc = None,
           all_interpolated = \<lparr>nodes = sort_key fst (zip xs (map Some ys)),
              bounds_error = False, fill_below = 0, fill_above = 0\<rparr>,
           trans_min = nanmax lo mn, trans_max = nanmin hi mx,
           init_once = False, minimum_priv = Some (PyFloat (nanmax lo mn)),
           maximum_priv = Some (PyFloat (nanmin hi mx))\<rparr>)"

text \<open>Elementwise order of two bounds, under broadcasting.\<close>

definition le_pyval :: "pyval \<Rightarrow> pyval \<Rightarrow> bool" where
  "le_pyval u v =
     (case broadcast2 (as_list u) (as_list v) of
        Inl e \<Rightarrow> False
      | Inr (as, bs) \<Rightarrow> list_all2 (\<le>) as bs)"

text \<open>No element of the stored minimum lies below \<open>min_limit\<close>, none of the stored
  maximum above \<open>max_limit\<close>.\<close>

definition limits_respected :: "TransInterped \<Rightarrow> bool" where
  "limits_respected s =
     (case (minimum_priv s, maximum_priv s) of
        (Some mn, Some mx) \<Rightarrow>
          list_all (\<lambda>a. \<not> a < min_limit s) (as_list mn) \<and>
          list_all (\<lambda>b. \<not> max_limit s < b) (as_list mx)
      | _ \<Rightarrow> False)"

text \<open>The chain \<open>min_limit \<le> minimum \<le> maximum \<le> max_limit\<close>, elementwise.\<close>

definition bounds_chain :: "TransInterped \<Rightarrow> bool" where
  "bounds_chain s =
     (case (minimum_priv s, maximum_priv s) of
        (Some mn, Some mx) \<Rightarrow>
          list_all (\<lambda>a. min_limit s \<le> a) (as_list mn) \<and> le_pyval mn mx \<and>
          list_all (\<lambda>b. b \<le> max_limit s) (as_list mx)
      | _ \<Rightarrow> False)"

text \<open>A concrete instance: the flat density on the grid 0, 1, without caller bounds.\<close>

definition flat_density :: TransInterped where
  "flat_density = projr (TransInterped_init [0, 1] [1, 1] None None)"

text \<open>A second concrete instance: the flat density on the grid 0, 1, 2, 3, 4.\<close>

definition uniform5 :: TransInterped where
  "uniform5 = projr (TransInterped_init [0, 1, 2, 3, 4] [1, 1, 1, 1, 1] None None)"

text \<open>A call of the attribute \<open>inverse_cumulative_distribution\<close>, which no method of the
  class wraps.\<close>

definition quantile :: "TransInterped \<Rightarrow> pyval \<Rightarrow> error + ndarray" where
  "quantile s val =
     (case inverse_cumulative_distribution s of
        None \<Rightarrow> Inl TypeError
      | Some f \<Rightarrow> interp1d_call f val)"

text \<open>The values numpy holds as a numeric array: every float and array, and an int within
  the range of its 64-bit integers.\<close>

fun numpy_numeric :: "pyval \<Rightarrow> bool" where
  "numpy_numeric (PyInt i) = (- (2 ^ 63) \<le> i \<and> i < 2 ^ 64)"
| "numpy_numeric v = True"

text \<open>Three more concrete instances on the grid 0, 1, 2, 3: two tabulated functions that
  take negative values, and two constructions from one pair of arrays with different
  bounds.\<close>

definition dipping :: TransInterped where
  "dipping = projr (TransInterped_init [0, 1, 2, 3] [2, - 4, 2, 4] None None)"

definition swinging :: TransInterped where
  "swinging = projr (TransInterped_init [0, 1, 2, 3] [0, 4, - 6, 10] None None)"

definition whole_range :: TransInterped where
  "whole_range = projr (TransInterped_init [0, 1, 2] [1, 1, 1] None None)"

definition upper_half :: TransInterped where
  "upper_half = projr (TransInterped_init [0, 1, 2] [1, 1, 1] (Some 1) None)"

section \<open>The setters and the one-shot guard\<close>

lemma set_minimum_cases:
  "set_minimum s v = (r, s') \<Longrightarrow> (r \<noteq> None \<and> s' = s) \<or> (r = None \<and> s' = s\<lparr>minimum_priv := Some v\<rparr>)"
  by (auto simp: set_minimum_def split: if_splits sum.splits bool.splits)

lemma set_maximum_cases:
  "set_maximum s v = (r, s') \<Longrightarrow> (r \<noteq> None \<and> s' = s) \<or> (r = None \<and> s' = s\<lparr>maximum_priv := Some v\<rparr>)"
  by (auto simp: set_maximum_def split: if_splits sum.splits bool.splits)

lemma initialize_attributes_guard: "init_once s \<Longrightarrow> initialize_attributes s = (None, s)"
  by (simp add: initialize_attributes_def)

lemma update_instance_frozen:
  "init_once s \<Longrightarrow> update_instance s = (r, s') \<Longrightarrow> frozen_part s' = frozen_part s"
  by (auto simp: update_instance_def initialize_attributes_guard Let_def frozen_part_def
           split: option.splits sum.splits)

lemma frozen_step_minimum: "set_minimum s v = (r, s') \<Longrightarrow> frozen_part s' = frozen_part s"
  by (drule set_minimum_cases) (auto simp: frozen_part_def)

lemma frozen_step_maximum: "set_maximum s v = (r, s') \<Longrightarrow> frozen_part s' = frozen_part s"
  by (drule set_maximum_cases) (auto simp: frozen_part_def)

lemma frozen_step_yy:
  assumes "init_once s" and "set_yy s ys = (r, s')"
  shows "frozen_part s' = frozen_part s"
proof (cases "interp1d_init (xx s) (map Some ys) False 0 0")
  case (Inl e)
  with assms(2) show ?thesis by (auto simp: set_yy_def Let_def frozen_part_def)
next
  case (Inr f)
  let ?s1 = "s\<lparr>yy_priv := Grid1 (map Fin ys), all_interpolated := f\<rparr>"
  from Inr assms(2) have "update_instance ?s1 = (r, s')" by (simp add: set_yy_def Let_def)
  moreover have "init_once ?s1" using assms(1) by simp
  ultimately have "frozen_part s' = frozen_part ?s1" by (rule update_instance_frozen[rotated])
  then show ?thesis by (simp add: frozen_part_def)
qed

lemma evolves_frozen: "evolves s0 s \<Longrightarrow> init_once s0 \<Longrightarrow> frozen_part s = frozen_part s0"
proof (induction rule: evolves.induct)
  case (evolves_refl s)
  show ?case by simp
next
  case (evolves_minimum s0 s v r s')
  then show ?case using frozen_step_minimum by metis
next
  case (evolves_maximum s0 s v r s')
  then show ?case using frozen_step_maximum by metis
next
  case (evolves_yy s0 s ys r s')
  then have "frozen_part s = frozen_part s0" by simp
  moreover from this evolves_yy.prems have "init_once s" by (simp add: frozen_part_def)
  ultimately show ?case using frozen_step_yy evolves_yy.hyps(2) by metis
qed

lemma prob_frozen: "frozen_part s' = frozen_part s \<Longrightarrow> prob s' val = prob s val"
  by (simp add: frozen_part_def prob_def)

lemma cdf_frozen: "frozen_part s' = frozen_part s \<Longrightarrow> cdf s' val = cdf s val"
  by (simp add: frozen_part_def cdf_def)

lemma rescale_frozen: "frozen_part s' = frozen_part s \<Longrightarrow> rescale s' val = rescale s val"
  by (auto simp: frozen_part_def rescale_def split: option.splits sum.splits)

section \<open>Structure of a constructed instance\<close>

lemma length_linspace [simp]: "length (linspace a b n) = n"
  by (simp add: linspace_def)

lemma length_cumtrapz_from:
  "length ys = length xs \<Longrightarrow> length (cumtrapz_from acc ys xs) = length xs - 1"
  by (induction acc ys xs rule: cumtrapz_from.induct) auto

lemma length_cumtrapz: "length ys = length xs \<Longrightarrow> xs \<noteq> [] \<Longrightarrow> length (cumtrapz ys xs) = length xs"
  by (cases xs) (simp_all add: cumtrapz_def length_cumtrapz_from)

lemma length_cumtrapz_opt_from:
  "length ys = length xs \<Longrightarrow> length (cumtrapz_opt_from acc ys xs) = length xs - 1"
  by (induction acc ys xs rule: cumtrapz_opt_from.induct) auto

lemma length_cumtrapz_opt:
  "length ys = length xs \<Longrightarrow> xs \<noteq> [] \<Longrightarrow> length (cumtrapz_opt ys xs) = length xs"
  by (cases xs) (simp_all add: cumtrapz_opt_def length_cumtrapz_opt_from)

lemma cumtrapz_ne: "cumtrapz ys xs \<noteq> []"
  by (simp add: cumtrapz_def)

lemma those_map_Some [simp]: "those (map Some xs) = Some xs"
  by (induction xs) auto

lemma finite_part_Fin [simp]: "finite_part \<circ> Fin = Some"
  by (rule ext) simp

lemma those_finite_Fin [simp]: "those (map finite_part (map Fin xs)) = Some xs"
  by simp

lemma lin_walk_finite:
  "ps \<noteq> [] \<Longrightarrow> (\<And>p. p \<in> set ps \<Longrightarrow> snd p \<noteq> None) \<Longrightarrow> lin_walk ps q \<noteq> None"
proof (induction ps q rule: lin_walk.induct)
  case (3 x0 y0 x1 y1 ps q)
  have "y0 \<noteq> None" "y1 \<noteq> None" using "3.prems"(2)[of "(x0, y0)"] "3.prems"(2)[of "(x1, y1)"] by auto
  moreover have "lin_walk ((x1, y1) # ps) q \<noteq> None" if "\<not> q < x1"
    using that 3 by auto
  ultimately show ?case by auto
qed auto

lemma interp1d_at_total:
  assumes "\<not> bounds_error f" "nodes f \<noteq> []" "\<And>p. p \<in> set (nodes f) \<Longrightarrow> snd p \<noteq> None"
  shows "interp1d_at f q = Inr (interp1d_val f q)"
proof -
  obtain p ps where n: "nodes f = p # ps" using assms(2) by (cases "nodes f") auto
  have "lin_walk (p # ps) q \<noteq> None" using lin_walk_finite[of "nodes f" q] assms(2,3) n by simp
  then show ?thesis using assms(1) by (auto simp: interp1d_val_def interp1d_at_def n)
qed

lemma map_err_total: "(\<And>x. f x = Inr (g x)) \<Longrightarrow> map_err f xs = Inr (map g xs)"
  by (induction xs) auto

lemma map_err_interp1d:
  assumes "\<not> bounds_error f" "nodes f \<noteq> []" "\<And>p. p \<in> set (nodes f) \<Longrightarrow> snd p \<noteq> None"
  shows "map_err (interp1d_at f) qs = Inr (map (interp1d_val f) qs)"
  by (rule map_err_total) (rule interp1d_at_total[OF assms])

lemma interp1d_init_ok:
  "length ys = length xs \<Longrightarrow> xs \<noteq> [] \<Longrightarrow>
   interp1d_init (Grid1 xs) ys be fb fa =
     Inr \<lparr>nodes = sort_key fst (zip xs ys), bounds_error = be, fill_below = fb, fill_above = fa\<rparr>"
  by (simp add: interp1d_init_def)

lemma interp1d_init_Inr:
  "interp1d_init (Grid1 xs) ys be fb fa = Inr f \<longleftrightarrow>
     length xs = length ys \<and> xs \<noteq> [] \<and>
     f = \<lparr>nodes = sort_key fst (zip xs ys), bounds_error = be, fill_below = fb, fill_above = fa\<rparr>"
  by (auto simp: interp1d_init_def)

lemma interp1d_init_opt_ok:
  assumes "length ys = length xs" "xs \<noteq> []"
  shows "interp1d_init_opt xs ys be fb fa = Inr (projr (interp1d_init_opt xs ys be fb fa))"
proof (cases "those xs")
  case None
  then show ?thesis using assms by (simp add: interp1d_init_opt_def)
next
  case (Some ks)
  then have "length ks = length xs" by (induction xs arbitrary: ks) (auto split: option.splits)
  with assms have "length ys = length ks" "ks \<noteq> []" by auto
  then show ?thesis using Some by (simp add: interp1d_init_opt_def interp1d_init_ok)
qed

lemma sort_key_zip_Nil: "sort_key fst (zip xs ys) = [] \<longleftrightarrow> xs = [] \<or> ys = []"
  by (metis length_sort length_0_conv zip_eq_Nil_iff)

lemma initialize_attributes_fresh:
  assumes "\<not> init_once p" "xx p = Grid1 g" "yy_priv p = Grid1 (map Fin ry)"
    and "length ry = length g" "g \<noteq> []"
  shows "initialize_attributes p =
     (None,
      let cum = cumtrapz ry g;
          ny = map (\<lambda>y. np_divide y (trapz ry g)) ry;
          cdf1 = (cumtrapz_opt (map finite_part ny) g)[length g - 1 := Some 1]
      in p\<lparr>yy_priv := Grid1 ny, YY := Some cdf1, YYnotNorm := Some cum,
           probability_density := Some \<lparr>nodes = sort_key fst (zip g (map finite_part ny)),
              bounds_error = False, fill_below = 0, fill_above = 0\<rparr>,
           cumulative_distribution := Some \<lparr>nodes = sort_key fst (zip g cdf1),
              bounds_error = False, fill_below = 0, fill_above = 1\<rparr>,
           inverse_cumulative_distribution :=
              Some (projr (interp1d_init_opt cdf1 (map Some g) True 0 0)),
           Normalizer_calc := Some \<lparr>nodes = sort_key fst (zip g (map Some cum)),
              bounds_error = False, fill_below = 0, fill_above = 0\<rparr>,
           Inv_Normalizer_calc := Some \<lparr>nodes = sort_key fst (zip cum (map Some g)),
              bounds_error = False, fill_below = 0, fill_above = 0\<rparr>,
           init_once := True\<rparr>)"
proof -
  let ?ny = "map (\<lambda>y. np_divide y (trapz ry g)) ry"
  let ?cdf0 = "cumtrapz_opt (map finite_part ?ny) g"
  let ?cdf1 = "?cdf0[length g - Suc 0 := Some 1]"
  have l1: "length (cumtrapz ry g) = length g" using assms(4,5) by (rule length_cumtrapz)
  have l3: "length ?cdf0 = length g"
    using assms(4,5) by (intro length_cumtrapz_opt) simp_all
  then have l2: "length (map Some g) = length ?cdf1" by simp
  have "?cdf1 \<noteq> []" using l3 assms(5) by auto
  from interp1d_init_opt_ok[OF l2 this]
  obtain f where f: "interp1d_init_opt ?cdf1 (map Some g) True 0 0 = Inr f" by metis
  show ?thesis
    using assms(1,4,5) l1 l3
    by (simp add: initialize_attributes_def assms(2,3) Let_def interp1d_init_ok cumtrapz_ne f
        del: map_map)
qed

lemma update_instance_fresh:
  assumes "\<not> init_once p" "minimum_priv p = Some (PyFloat a)" "maximum_priv p = Some (PyFloat b)"
    and "\<not> bounds_error (all_interpolated p)" "nodes (all_interpolated p) \<noteq> []"
    and "\<And>n. n \<in> set (nodes (all_interpolated p)) \<Longrightarrow> snd n \<noteq> None"
    and "grid_len (xx p) \<noteq> 0"
  shows "update_instance p = (None, built p a b)"
proof -
  let ?g = "linspace a b (grid_len (xx p))"
  let ?ry = "map (interp1d_val (all_interpolated p)) ?g"
  let ?p1 = "p\<lparr>xx := Grid1 ?g, yy_priv := Grid1 (map Fin ?ry)\<rparr>"
  have g: "?g \<noteq> []" using assms(7) by (metis length_linspace length_0_conv)
  have "update_instance p = initialize_attributes ?p1"
    using assms(2,3) by (simp add: update_instance_def linspace_nd_def map_err_interp1d[OF assms(4,5,6)])
  also have "\<dots> = (None, built p a b)"
    using assms(1) g
    by (subst initialize_attributes_fresh[of ?p1 ?g ?ry]) (simp_all add: built_def Let_def del: map_map)
  finally show ?thesis .
qed

lemma nanmax_ge: "lo \<le> nanmax lo m"
  by (cases m) auto

lemma nanmin_le: "nanmin hi m \<le> hi"
  by (cases m) auto

lemma Prior_init_run:
  assumes "min_limit p \<le> a" "b \<le> max_limit p"
  shows "Prior_init p a b =
     (if b < a then (Some (ValueError ''maximum < minimum''), p)
      else (None, p\<lparr>minimum_priv := Some (PyFloat a), maximum_priv := Some (PyFloat b)\<rparr>))"
  using assms by (simp add: Prior_init_def set_minimum_def set_maximum_def)

lemma init_run:
  assumes "xs \<noteq> []" and "length ys = length xs"
  shows "TransInterped_init xs ys mn mx =
     (if trans_max (fresh xs ys mn mx) < trans_min (fresh xs ys mn mx)
      then Inl (ValueError ''maximum < minimum'')
      else Inr (built (fresh xs ys mn mx) (trans_min (fresh xs ys mn mx))
                  (trans_max (fresh xs ys mn mx))))"
proof -
  obtain x xs' where xs: "xs = x # xs'" using assms(1) by (cases xs) auto
  define lo hi where "lo = fold min xs' x" and "hi = fold max xs' x"
  define a b where "a = nanmax lo mn" and "b = nanmin hi mx"
  define f where "f = \<lparr>nodes = sort_key fst (zip xs (map Some ys)), bounds_error = False,
                     fill_below = 0, fill_above = (0::rat)\<rparr>"
  define p0 where "p0 = \<lparr>xx = Grid1 xs, min_limit = lo, max_limit = hi,
                yy_priv = Grid1 (map Fin ys),
                YY = None, YYnotNorm = None, probability_density = None,
                cumulative_distribution = None, inverse_cumulative_distribution = None,
                Normalizer_calc = None, Inv_Normalizer_calc = None,
                all_interpolated = f, trans_min = a, trans_max = b,
                init_once = False, minimum_priv = None, maximum_priv = None\<rparr>"
  define p1 where "p1 = p0\<lparr>minimum_priv := Some (PyFloat a), maximum_priv := Some (PyFloat b)\<rparr>"
  have fr: "fresh xs ys mn mx = p1"
    by (simp add: fresh_def Let_def xs p1_def p0_def f_def a_def b_def lo_def hi_def)
  have lim: "min_limit p0 \<le> a" "b \<le> max_limit p0"
    by (simp_all add: p0_def a_def b_def nanmax_ge nanmin_le)
  have unfold: "TransInterped_init xs ys mn mx =
      (case Prior_init p0 a b of
            (Some e, s1) \<Rightarrow> Inl e
          | (None, s1) \<Rightarrow>
              (case update_instance s1 of
                 (Some e, s2) \<Rightarrow> Inl e
               | (None, s2) \<Rightarrow> Inr s2))"
    using assms(2) by (simp add: TransInterped_init_def xs interp1d_init_ok Let_def
        p0_def f_def a_def b_def lo_def hi_def)
  have pre: "\<not> init_once p1" "minimum_priv p1 = Some (PyFloat a)" "maximum_priv p1 = Some (PyFloat b)"
    "\<not> bounds_error (all_interpolated p1)" "nodes (all_interpolated p1) \<noteq> []"
    "\<And>n. n \<in> set (nodes (all_interpolated p1)) \<Longrightarrow> snd n \<noteq> None"
    "grid_len (xx p1) \<noteq> 0"
    using assms(2) by (auto simp: p1_def p0_def f_def xs sort_key_zip_Nil dest!: set_zip_rightD)
  have t: "trans_min p1 = a" "trans_max p1 = b" by (simp_all add: p1_def p0_def)
  show ?thesis
  proof (cases "b < a")
    case True
    then show ?thesis by (simp add: unfold Prior_init_run[OF lim] fr t)
  next
    case False
    then show ?thesis
      by (simp add: unfold Prior_init_run[OF lim] fr t p1_def[symmetric] update_instance_fresh[OF pre])
  qed
qed

lemma init_Inr_built:
  assumes "TransInterped_init xs ys mn mx = Inr s"
  shows "s = built (fresh xs ys mn mx) (trans_min s) (trans_max s)"
    and "all_interpolated s = \<lparr>nodes = sort_key fst (zip xs (map Some ys)), bounds_error = False,
           fill_below = 0, fill_above = 0\<rparr>"
    and "length ys = length xs" and "xs \<noteq> []"
    and "min_limit s = fold min (tl xs) (hd xs)" and "max_limit s = fold max (tl xs) (hd xs)"
    and "trans_min s = nanmax (min_limit s) mn" and "trans_max s = nanmin (max_limit s) mx"
    and "minimum_priv s = Some (PyFloat (trans_min s))"
    and "maximum_priv s = Some (PyFloat (trans_max s))"
    and "trans_min s \<le> trans_max s"
    and "init_once s"
    and "grid_len (xx (fresh xs ys mn mx)) = length xs"
    and "all_interpolated (fresh xs ys mn mx) = all_interpolated s"
proof -
  show ne: "xs \<noteq> []" using assms by (cases xs) (auto simp: TransInterped_init_def)
  show len: "length ys = length xs"
    using assms ne by (cases xs) (auto simp: TransInterped_init_def interp1d_init_def split: if_splits)
  let ?p = "fresh xs ys mn mx"
  from init_run[OF ne len, of mn mx] assms
  have le: "\<not> trans_max ?p < trans_min ?p" and s: "s = built ?p (trans_min ?p) (trans_max ?p)"
    by (auto split: if_splits)
  have keep: "trans_min (built ?p a b) = trans_min ?p" "trans_max (built ?p a b) = trans_max ?p"
    "min_limit (built ?p a b) = min_limit ?p" "max_limit (built ?p a b) = max_limit ?p"
    "minimum_priv (built ?p a b) = minimum_priv ?p" "maximum_priv (built ?p a b) = maximum_priv ?p"
    "all_interpolated (built ?p a b) = all_interpolated ?p" "init_once (built ?p a b)" for a b
    by (simp_all add: built_def Let_def)
  have t: "trans_min s = trans_min ?p" "trans_max s = trans_max ?p"
    by (subst s, simp add: keep)+
  show "s = built ?p (trans_min s) (trans_max s)" unfolding t by (rule s)
  show "all_interpolated s = \<lparr>nodes = sort_key fst (zip xs (map Some ys)), bounds_error = False,
           fill_below = 0, fill_above = 0\<rparr>"
    by (subst s) (simp add: keep, simp add: fresh_def Let_def)
  show ml: "min_limit s = fold min (tl xs) (hd xs)" "max_limit s = fold max (tl xs) (hd xs)"
    by (subst s, simp add: keep, simp add: fresh_def Let_def)+
  show "trans_min s = nanmax (min_limit s) mn" "trans_max s = nanmin (max_limit s) mx"
    unfolding t ml by (simp_all add: fresh_def Let_def)
  show "minimum_priv s = Some (PyFloat (trans_min s))" "maximum_priv s = Some (PyFloat (trans_max s))"
    unfolding t by (subst s, simp add: keep, simp add: fresh_def Let_def)+
  show "trans_min s \<le> trans_max s" using le by (simp add: t)
  show "init_once s" by (subst s) (simp add: keep)
  show "grid_len (xx ?p) = length xs" by (simp add: fresh_def Let_def)
  have "all_interpolated s = all_interpolated ?p" by (subst s) (simp add: keep)
  then show "all_interpolated ?p = all_interpolated s" by simp
qed

lemma flat_density_init: "TransInterped_init [0, 1] [1, 1] None None = Inr flat_density"
  unfolding flat_density_def by code_simp

lemma uniform5_init:
  "TransInterped_init [0, 1, 2, 3, 4] [1, 1, 1, 1, 1] None None = Inr uniform5"
  unfolding uniform5_def by code_simp

section \<open>Claims about the setters and the guard\<close>

text \<open>
  C10. A Python int assigned to \<open>minimum\<close> or to \<open>maximum\<close> is never stored, whatever its
  value: it is not a float, so the array branch runs, and \<open>any\<close> of the bool that the
  comparison returns raises a TypeError before the assignment; the instance is unchanged.
\<close>

theorem int_bound_rejected:
  "set_minimum s (PyInt v) = (Some TypeError, s) \<and> set_maximum s (PyInt v) = (Some TypeError, s)"
  by (simp add: set_minimum_def set_maximum_def)

text \<open>
  C4. Once the guard is set, no sequence of assignments to \<open>minimum\<close>, \<open>maximum\<close> or
  \<open>yy\<close>, raising or not, changes the three normalised interpolants or the unnormalised
  pair; the guard stays set, and \<open>prob\<close>, \<open>cdf\<close> and \<open>rescale\<close> return on every input what
  they returned before.
\<close>

theorem frozen_after_first_build:
  assumes "init_once s" and "evolves s s'"
  shows "probability_density s' = probability_density s \<and>
         cumulative_distribution s' = cumulative_distribution s \<and>
         inverse_cumulative_distribution s' = inverse_cumulative_distribution s \<and>
         Normalizer_calc s' = Normalizer_calc s \<and>
         Inv_Normalizer_calc s' = Inv_Normalizer_calc s \<and>
         init_once s' \<and>
         prob s' val = prob s val \<and> cdf s' val = cdf s val \<and> rescale s' val = rescale s val"
proof -
  have f: "frozen_part s' = frozen_part s" using assms evolves_frozen by blast
  then have "prob s' val = prob s val" "cdf s' val = cdf s val" "rescale s' val = rescale s val"
    by (rule prob_frozen, rule cdf_frozen, rule rescale_frozen)
  with f assms(1) show ?thesis by (simp add: frozen_part_def)
qed

theorem frozen_after_first_build_witness:
  "init_once flat_density \<and>
   evolves flat_density (snd (set_yy (snd (set_minimum flat_density (PyFloat (1/2)))) [3, 1])) \<and>
   minimum_priv (snd (set_yy (snd (set_minimum flat_density (PyFloat (1/2)))) [3, 1])) = Some (PyFloat (1/2)) \<and>
   rescale (snd (set_yy (snd (set_minimum flat_density (PyFloat (1/2)))) [3, 1])) (PyFloat (1/2)) = Inr (PyFloat (1/2)) \<and>
   rescale flat_density (PyFloat (1/2)) = Inr (PyFloat (1/2))"
proof -
  let ?s1 = "snd (set_minimum flat_density (PyFloat (1/2)))"
  let ?s2 = "snd (set_yy ?s1 [3, 1])"
  have i: "init_once flat_density" unfolding flat_density_def by code_simp
  have e1: "evolves flat_density ?s1"
    by (rule evolves_minimum[OF evolves_refl, of _ "PyFloat (1/2)" "fst (set_minimum flat_density (PyFloat (1/2)))"]) simp
  have e2: "evolves flat_density ?s2"
    by (rule evolves_yy[OF e1, of "[3, 1]" "fst (set_yy ?s1 [3, 1])"]) simp
  have m: "minimum_priv ?s2 = Some (PyFloat (1/2))" unfolding flat_density_def by code_simp
  have r: "rescale flat_density (PyFloat (1/2)) = Inr (PyFloat (1/2))" unfolding flat_density_def by code_simp
  from frozen_after_first_build[OF i e2, of "PyFloat (1/2)"] i e2 m r show ?thesis by simp
qed

section \<open>Claims about rescaling\<close>

lemma built_unnormalised:
  assumes "TransInterped_init xs ys mn mx = Inr s"
  shows "\<exists>nc inc. Normalizer_calc s = Some nc \<and> Inv_Normalizer_calc s = Some inc \<and>
           \<not> bounds_error nc \<and> nodes nc \<noteq> [] \<and> (\<forall>p\<in>set (nodes nc). snd p \<noteq> None) \<and>
           \<not> bounds_error inc \<and> nodes inc \<noteq> [] \<and> (\<forall>p\<in>set (nodes inc). snd p \<noteq> None)"
proof -
  note b = init_Inr_built[OF assms]
  define g where "g = linspace (trans_min s) (trans_max s) (length xs)"
  define ry where "ry = map (interp1d_val (all_interpolated s)) g"
  have gne: "g \<noteq> []" using b(4) by (metis g_def length_linspace length_0_conv)
  have cne: "cumtrapz ry g \<noteq> []" by (simp add: cumtrapz_def)
  have "Normalizer_calc s = Some \<lparr>nodes = sort_key fst (zip g (map Some (cumtrapz ry g))),
          bounds_error = False, fill_below = 0, fill_above = 0\<rparr>"
    by (subst b(1)) (simp add: built_def Let_def g_def ry_def b(13,14))
  moreover have "Inv_Normalizer_calc s = Some \<lparr>nodes = sort_key fst (zip (cumtrapz ry g) (map Some g)),
          bounds_error = False, fill_below = 0, fill_above = 0\<rparr>"
    by (subst b(1)) (simp add: built_def Let_def g_def ry_def b(13,14))
  ultimately show ?thesis using gne cne
    by (auto simp: sort_key_zip_Nil dest!: set_zip_rightD)
qed

text \<open>
  C1. On every instance that the setters make of a constructed one, \<open>rescale(val)\<close> is
  \<open>Inv_Normalizer_calc\<close> at \<open>y_lo + (y_hi - y_lo) * val\<close>, where \<open>y_lo\<close> and \<open>y_hi\<close> are the
  values of \<open>Normalizer_calc\<close> at \<open>trans_min\<close> and \<open>trans_max\<close>; the two interpolants and the
  two bounds are those of the construction, the bounds being the caller's clamped to the
  extent of the raw grid. A float or an int gives a float, an array gives an array of the
  same length, and no input makes the call raise.
\<close>

theorem rescale_formula:
  assumes "TransInterped_init xs ys mn mx = Inr s0" and "evolves s0 s"
  shows "\<exists>nc inc y_lo y_hi.
      Normalizer_calc s0 = Some nc \<and> Inv_Normalizer_calc s0 = Some inc \<and>
      Normalizer_calc s = Some nc \<and> Inv_Normalizer_calc s = Some inc \<and>
      trans_min s = nanmax (fold min (tl xs) (hd xs)) mn \<and>
      trans_max s = nanmin (fold max (tl xs) (hd xs)) mx \<and>
      interp1d_at nc (trans_min s) = Inr y_lo \<and>
      interp1d_at nc (trans_max s) = Inr y_hi \<and>
      (\<forall>v. \<exists>r. interp1d_at inc (y_lo + (y_hi - y_lo) * v) = Inr r \<and>
              rescale s (PyFloat v) = Inr (PyFloat r)) \<and>
      (\<forall>i. \<exists>r. interp1d_at inc (y_lo + (y_hi - y_lo) * of_int i) = Inr r \<and>
              rescale s (PyInt i) = Inr (PyFloat r)) \<and>
      (\<forall>vs. \<exists>rs. map_err (interp1d_at inc) (map (\<lambda>v. y_lo + (y_hi - y_lo) * v) vs) = Inr rs \<and>
              length rs = length vs \<and> rescale s (PyArray vs) = Inr (PyArray rs))"
proof -
  note b = init_Inr_built[OF assms(1)]
  from built_unnormalised[OF assms(1)] obtain nc inc where
    nc: "Normalizer_calc s0 = Some nc" "\<not> bounds_error nc" "nodes nc \<noteq> []"
      "\<And>p. p \<in> set (nodes nc) \<Longrightarrow> snd p \<noteq> None"
    and inc: "Inv_Normalizer_calc s0 = Some inc" "\<not> bounds_error inc" "nodes inc \<noteq> []"
      "\<And>p. p \<in> set (nodes inc) \<Longrightarrow> snd p \<noteq> None"
    by blast
  have "init_once s0" by (rule b(12))
  with assms(2) have fr: "frozen_part s = frozen_part s0" by (rule evolves_frozen)
  then have same: "Normalizer_calc s = Some nc" "Inv_Normalizer_calc s = Some inc"
    "trans_min s = trans_min s0" "trans_max s = trans_max s0"
    using nc(1) inc(1) by (simp_all add: frozen_part_def)
  define y_lo y_hi where "y_lo = interp1d_val nc (trans_min s)" and "y_hi = interp1d_val nc (trans_max s)"
  have lo: "interp1d_at nc (trans_min s) = Inr y_lo" and hi: "interp1d_at nc (trans_max s) = Inr y_hi"
    using nc(2,3,4) by (simp_all add: interp1d_at_total y_lo_def y_hi_def)
  have at: "interp1d_at inc t = Inr (interp1d_val inc t)" for t
    using inc(2,3,4) by (rule interp1d_at_total)
  have sc: "\<exists>r. interp1d_at inc (y_lo + (y_hi - y_lo) * v) = Inr r \<and>
              rescale s (PyFloat v) = Inr (PyFloat r)" for v
    by (simp add: rescale_def same(1,2) lo hi at)
  have si: "\<exists>r. interp1d_at inc (y_lo + (y_hi - y_lo) * of_int i) = Inr r \<and>
              rescale s (PyInt i) = Inr (PyFloat r)" for i
    by (simp add: rescale_def same(1,2) lo hi at)
  have sa: "\<exists>rs. map_err (interp1d_at inc) (map (\<lambda>v. y_lo + (y_hi - y_lo) * v) vs) = Inr rs \<and>
              length rs = length vs \<and> rescale s (PyArray vs) = Inr (PyArray rs)" for vs
    by (simp add: rescale_def same(1,2) lo hi map_err_interp1d[OF inc(2,3,4)])
  have tm: "trans_min s = nanmax (fold min (tl xs) (hd xs)) mn"
    "trans_max s = nanmin (fold max (tl xs) (hd xs)) mx"
    using b(5-8) same(3,4) by simp_all
  show ?thesis using nc(1) inc(1) same(1,2) tm lo hi sc si sa by blast
qed

theorem rescale_formula_witness:
  "TransInterped_init [0, 1, 2, 3, 4] [1, 1, 1, 1, 1] None None = Inr uniform5 \<and>
   evolves uniform5 uniform5 \<and>
   (\<exists>nc inc y_lo y_hi.
      Normalizer_calc uniform5 = Some nc \<and> Inv_Normalizer_calc uniform5 = Some inc \<and>
      Normalizer_calc uniform5 = Some nc \<and> Inv_Normalizer_calc uniform5 = Some inc \<and>
      trans_min uniform5 = nanmax (fold min (tl [0, 1, 2, 3, 4]) (hd [0, 1, 2, 3, 4])) None \<and>
      trans_max uniform5 = nanmin (fold max (tl [0, 1, 2, 3, 4]) (hd [0, 1, 2, 3, 4])) None \<and>
      interp1d_at nc (trans_min uniform5) = Inr y_lo \<and>
      interp1d_at nc (trans_max uniform5) = Inr y_hi \<and>
      (\<forall>v. \<exists>r. interp1d_at inc (y_lo + (y_hi - y_lo) * v) = Inr r \<and>
              rescale uniform5 (PyFloat v) = Inr (PyFloat r)) \<and>
      (\<forall>i. \<exists>r. interp1d_at inc (y_lo + (y_hi - y_lo) * of_int i) = Inr r \<and>
              rescale uniform5 (PyInt i) = Inr (PyFloat r)) \<and>
      (\<forall>vs. \<exists>rs. map_err (interp1d_at inc) (map (\<lambda>v. y_lo + (y_hi - y_lo) * v) vs) = Inr rs \<and>
              length rs = length vs \<and> rescale uniform5 (PyArray vs) = Inr (PyArray rs)))"
  using rescale_formula[OF uniform5_init evolves_refl] uniform5_init evolves_refl[of uniform5]
  by blast

section \<open>Claims about the bounds\<close>

lemma set_minimum_stored:
  "set_minimum s v = (None, s') \<Longrightarrow> list_all (\<lambda>a. \<not> a < min_limit s) (as_list v)"
  by (cases v) (auto simp: set_minimum_def list_all_iff split: sum.splits bool.splits if_splits)

lemma set_maximum_stored:
  "set_maximum s v = (None, s') \<Longrightarrow> list_all (\<lambda>b. \<not> max_limit s < b) (as_list v)"
  by (cases v) (auto simp: set_maximum_def list_all_iff split: sum.splits bool.splits if_splits)

lemma limits_step_minimum:
  assumes "limits_respected s" "set_minimum s v = (r, s')"
  shows "limits_respected s'"
proof -
  from set_minimum_cases[OF assms(2)] show ?thesis
  proof
    assume "r \<noteq> None \<and> s' = s"
    with assms(1) show ?thesis by simp
  next
    assume a: "r = None \<and> s' = s\<lparr>minimum_priv := Some v\<rparr>"
    with assms(2) have "list_all (\<lambda>a. \<not> a < min_limit s) (as_list v)"
      using set_minimum_stored by blast
    with a assms(1) show ?thesis
      by (auto simp: limits_respected_def split: option.splits)
  qed
qed

lemma limits_step_maximum:
  assumes "limits_respected s" "set_maximum s v = (r, s')"
  shows "limits_respected s'"
proof -
  from set_maximum_cases[OF assms(2)] show ?thesis
  proof
    assume "r \<noteq> None \<and> s' = s"
    with assms(1) show ?thesis by simp
  next
    assume a: "r = None \<and> s' = s\<lparr>maximum_priv := Some v\<rparr>"
    with assms(2) have "list_all (\<lambda>b. \<not> max_limit s < b) (as_list v)"
      using set_maximum_stored by blast
    with a assms(1) show ?thesis
      by (auto simp: limits_respected_def split: option.splits)
  qed
qed

lemma update_instance_bounds:
  "init_once s \<Longrightarrow> update_instance s = (r, s') \<Longrightarrow>
     minimum_priv s' = minimum_priv s \<and> maximum_priv s' = maximum_priv s"
  by (auto simp: update_instance_def initialize_attributes_guard Let_def
           split: option.splits sum.splits)

lemma set_yy_bounds:
  assumes "init_once s" and "set_yy s ys = (r, s')"
  shows "minimum_priv s' = minimum_priv s \<and> maximum_priv s' = maximum_priv s"
proof (cases "interp1d_init (xx s) (map Some ys) False 0 0")
  case (Inl e)
  with assms(2) show ?thesis by (auto simp: set_yy_def Let_def)
next
  case (Inr f)
  let ?s1 = "s\<lparr>yy_priv := Grid1 (map Fin ys), all_interpolated := f\<rparr>"
  from Inr assms(2) have "update_instance ?s1 = (r, s')" by (simp add: set_yy_def Let_def)
  moreover have "init_once ?s1" using assms(1) by simp
  ultimately have "minimum_priv s' = minimum_priv ?s1 \<and> maximum_priv s' = maximum_priv ?s1"
    by (rule update_instance_bounds[rotated])
  then show ?thesis by simp
qed

lemma limits_step_yy:
  assumes "limits_respected s" "init_once s" "set_yy s ys = (r, s')"
  shows "limits_respected s'"
proof -
  from frozen_step_yy[OF assms(2,3)] have "min_limit s' = min_limit s" "max_limit s' = max_limit s"
    by (simp_all add: frozen_part_def)
  with set_yy_bounds[OF assms(2,3)] assms(1) show ?thesis
    by (auto simp: limits_respected_def split: option.splits)
qed

text \<open>
  C6, as amended. Right after construction the chain
  \<open>min_limit \<le> minimum \<le> maximum \<le> max_limit\<close> holds. On every instance that the setters make
  of a constructed one, whether a call raised or not, no element of the stored minimum lies
  below \<open>min_limit\<close> and none of the stored maximum above \<open>max_limit\<close>, and the two limits
  are those of the construction. Each setter checks its own limit only, so the order of
  minimum and maximum is not kept.
\<close>

theorem bounds_within_limits:
  assumes "TransInterped_init xs ys mn mx = Inr s0" and "evolves s0 s"
  shows "bounds_chain s0 \<and> limits_respected s \<and>
         min_limit s = min_limit s0 \<and> max_limit s = max_limit s0"
proof -
  note b = init_Inr_built[OF assms(1)]
  have i0: "init_once s0" by (rule b(12))
  have c0: "bounds_chain s0"
    using b(11) nanmax_ge[of "min_limit s0" mn] nanmin_le[of "max_limit s0" mx]
    by (simp add: bounds_chain_def b(9,10) le_pyval_def broadcast2_def b(7,8)[symmetric])
  then have l0: "limits_respected s0"
    by (auto simp: bounds_chain_def limits_respected_def list_all_iff not_less split: option.splits)
  from assms(2) i0 l0 have "limits_respected s \<and> init_once s"
  proof (induction rule: evolves.induct)
    case (evolves_refl s)
    then show ?case by simp
  next
    case (evolves_minimum s0 s v r s')
    then have "limits_respected s \<and> init_once s" by simp
    with evolves_minimum.hyps(2) show ?case
      using limits_step_minimum frozen_step_minimum[of s v r s'] by (auto simp: frozen_part_def)
  next
    case (evolves_maximum s0 s v r s')
    then have "limits_respected s \<and> init_once s" by simp
    with evolves_maximum.hyps(2) show ?case
      using limits_step_maximum frozen_step_maximum[of s v r s'] by (auto simp: frozen_part_def)
  next
    case (evolves_yy s0 s ys r s')
    then have "limits_respected s \<and> init_once s" by simp
    with evolves_yy.hyps(2) show ?case
      using limits_step_yy frozen_step_yy[of s ys r s'] by (auto simp: frozen_part_def)
  qed
  moreover from evolves_frozen[OF assms(2) i0]
  have "min_limit s = min_limit s0" "max_limit s = max_limit s0"
    by (simp_all add: frozen_part_def)
  ultimately show ?thesis using c0 by simp
qed

text \<open>
  C6, as stated, fails: on the flat density over 0, 1 the assignment of 5.0 to \<open>minimum\<close>
  passes the check against \<open>min_limit = 0\<close> and is stored, while \<open>maximum\<close> stays 1.
\<close>

theorem bounds_chain_counterexample:
  "TransInterped_init [0, 1] [1, 1] None None = Inr flat_density \<and>
   set_minimum flat_density (PyFloat 5) = (None, flat_density\<lparr>minimum_priv := Some (PyFloat 5)\<rparr>) \<and>
   evolves flat_density (flat_density\<lparr>minimum_priv := Some (PyFloat 5)\<rparr>) \<and>
   min_limit flat_density = 0 \<and> max_limit flat_density = 1 \<and>
   maximum_priv flat_density = Some (PyFloat 1) \<and>
   \<not> bounds_chain (flat_density\<lparr>minimum_priv := Some (PyFloat 5)\<rparr>)"
proof -
  have a: "min_limit flat_density = 0" "max_limit flat_density = 1"
    "maximum_priv flat_density = Some (PyFloat 1)"
    unfolding flat_density_def by code_simp+
  have s: "set_minimum flat_density (PyFloat 5) = (None, flat_density\<lparr>minimum_priv := Some (PyFloat 5)\<rparr>)"
    by (simp add: set_minimum_def a)
  have e: "evolves flat_density (flat_density\<lparr>minimum_priv := Some (PyFloat 5)\<rparr>)"
    by (rule evolves_minimum[OF evolves_refl s])
  have n: "\<not> bounds_chain (flat_density\<lparr>minimum_priv := Some (PyFloat 5)\<rparr>)"
    by (simp add: bounds_chain_def a le_pyval_def broadcast2_def)
  from flat_density_init a s e n show ?thesis by simp
qed

theorem bounds_within_limits_witness:
  "TransInterped_init [0, 1] [1, 1] None None = Inr flat_density \<and>
   evolves flat_density (flat_density\<lparr>minimum_priv := Some (PyFloat 5)\<rparr>) \<and>
   bounds_chain flat_density \<and>
   limits_respected (flat_density\<lparr>minimum_priv := Some (PyFloat 5)\<rparr>)"
proof -
  have a: "min_limit flat_density = 0" unfolding flat_density_def by code_simp
  have s: "set_minimum flat_density (PyFloat 5) = (None, flat_density\<lparr>minimum_priv := Some (PyFloat 5)\<rparr>)"
    by (simp add: set_minimum_def a)
  have e: "evolves flat_density (flat_density\<lparr>minimum_priv := Some (PyFloat 5)\<rparr>)"
    by (rule evolves_minimum[OF evolves_refl s])
  from bounds_within_limits[OF flat_density_init e] flat_density_init e show ?thesis by simp
qed




section \<open>The grid and the interpolants of a constructed instance\<close>

lemma linspace_eq_map:
  assumes "1 < n"
  shows "linspace a b n = map (\<lambda>i. a + of_nat i * ((b - a) / of_nat (n - 1))) [0..<n]"
proof -
  let ?f = "\<lambda>i. a + of_nat i * ((b - a) / of_nat (n - 1))"
  have "?f (n - 1) = b" using assms by simp
  then have "(map ?f [0..<n]) ! (n - 1) = b" using assms by simp
  then have "(map ?f [0..<n])[n - 1 := b] = map ?f [0..<n]"
    by (metis list_update_id)
  then show ?thesis using assms by (simp add: linspace_def)
qed

lemma hd_linspace: "0 < n \<Longrightarrow> hd (linspace a b n) = a"
proof (cases "1 < n")
  case True
  then show ?thesis by (simp add: linspace_eq_map hd_map upt_conv_Cons)
next
  case False
  assume "0 < n"
  with False have "n = 1" by simp
  then show ?thesis by (simp add: linspace_def)
qed

lemma last_linspace: "1 < n \<Longrightarrow> last (linspace a b n) = b"
  by (simp add: linspace_def last_list_update last_conv_nth)

lemma strict_linspace:
  assumes "a < b"
  shows "sorted_wrt (<) (linspace a b n)"
proof (cases "1 < n")
  case True
  define d where "d = (b - a) / of_nat (n - 1)"
  have d: "0 < d" using assms True by (simp add: d_def)
  have "a + of_nat i * d < a + of_nat j * d" if "i < j" for i j :: nat
  proof -
    have "(of_nat i :: rat) < of_nat j" using that by simp
    then show ?thesis using d by simp
  qed
  then have "sorted_wrt (<) (map (\<lambda>i. a + of_nat i * d) [0..<n])"
    by (simp add: sorted_wrt_map sorted_wrt_iff_nth_less)
  then show ?thesis using True by (simp add: linspace_eq_map d_def)
next
  case False
  then have "n = 0 \<or> n = 1" by auto
  then show ?thesis by (auto simp: linspace_def)
qed

lemma linspace_const: "x \<in> set (linspace a a n) \<Longrightarrow> x = a"
proof (cases "1 < n")
  case True
  assume "x \<in> set (linspace a a n)"
  then show ?thesis using True by (auto simp: linspace_eq_map)
next
  case False
  assume "x \<in> set (linspace a a n)"
  then show ?thesis using False by (auto simp: linspace_def)
qed

lemma sorted_const: "(\<And>x. x \<in> set xs \<Longrightarrow> x = c) \<Longrightarrow> sorted (xs :: rat list)"
  by (induction xs) auto

lemma sorted_linspace: "a \<le> b \<Longrightarrow> sorted (linspace a b n)"
proof (cases "a < b")
  case True
  then show ?thesis by (intro strict_sorted_imp_sorted strict_linspace)
next
  case False
  assume "a \<le> b"
  with False have "a = b" by simp
  then show ?thesis using sorted_const[of "linspace a a n" a] linspace_const by blast
qed

lemma sort_key_zip_sorted:
  "sorted xs \<Longrightarrow> length ys = length xs \<Longrightarrow> sort_key fst (zip xs ys) = zip xs ys"
  by (rule sort_key_id_if_sorted) simp

lemma hd_zip_fst: "length ys = length xs \<Longrightarrow> xs \<noteq> [] \<Longrightarrow> hd (zip xs ys) = (hd xs, hd ys)"
  by (cases xs; cases ys) auto

lemma last_zip_eq: "length ys = length xs \<Longrightarrow> xs \<noteq> [] \<Longrightarrow> last (zip xs ys) = (last xs, last ys)"
proof -
  assume a: "length ys = length xs" "xs \<noteq> []"
  then have "ys \<noteq> []" "zip xs ys \<noteq> []" by auto
  with a show ?thesis by (simp add: last_conv_nth)
qed

lemma sorted_hd_le: "sorted (xs :: rat list) \<Longrightarrow> x \<in> set xs \<Longrightarrow> hd xs \<le> x"
  by (cases xs) auto

lemma sorted_le_last: "sorted (xs :: rat list) \<Longrightarrow> x \<in> set xs \<Longrightarrow> x \<le> last xs"
  by (induction xs) (auto split: if_splits)

subsection \<open>The walk along sorted nodes\<close>

lemma key_le_last: "sorted (map fst ps) \<Longrightarrow> p \<in> set ps \<Longrightarrow> fst p \<le> fst (last ps)"
  by (induction ps) (auto split: if_splits)

lemma lin_walk_last:
  "sorted (map fst ps) \<Longrightarrow> ps \<noteq> [] \<Longrightarrow> q = fst (last ps) \<Longrightarrow> lin_walk ps q = snd (last ps)"
proof (induction ps q rule: lin_walk.induct)
  case (3 x0 y0 x1 y1 ps q)
  have "x1 \<le> fst (last ((x1, y1) # ps))"
    using "3.prems"(1) key_le_last[of "(x1, y1) # ps" "(x1, y1)"] by simp
  then have "\<not> q < x1" using "3.prems"(3) by simp
  then show ?case using 3 by simp
qed auto

lemma lin_walk_hit:
  "sorted (map fst ps) \<Longrightarrow> q \<in> fst ` set ps \<Longrightarrow> (q, lin_walk ps q) \<in> set ps"
proof (induction ps q rule: lin_walk.induct)
  case (3 x0 y0 x1 y1 ps q)
  show ?case
  proof (cases "q < x1")
    case True
    have "\<forall>k \<in> fst ` set ((x1, y1) # ps). x1 \<le> k" using "3.prems"(1) by auto
    with True have "q \<notin> fst ` set ((x1, y1) # ps)" by force
    with "3.prems"(2) have "q = x0" by auto
    then show ?thesis using True by simp
  next
    case False
    have "x0 \<le> x1" using "3.prems"(1) by simp
    with False "3.prems"(2) have "q \<in> fst ` set ((x1, y1) # ps)" by auto
    moreover have "sorted (map fst ((x1, y1) # ps))" using "3.prems"(1) by simp
    ultimately have "(q, lin_walk ((x1, y1) # ps) q) \<in> set ((x1, y1) # ps)"
      using "3.IH" False by blast
    then show ?thesis using False by simp
  qed
qed auto

lemma interp1d_at_node:
  assumes "nodes f = ns" "sorted (map fst ns)" "q \<in> fst ` set ns"
  shows "\<exists>y. (q, y) \<in> set ns \<and>
           interp1d_at f q = (case y of None \<Rightarrow> Inl NonFinite | Some r \<Rightarrow> Inr r)"
proof -
  obtain p ps where n: "ns = p # ps" using assms(3) by (cases ns) auto
  have "fst p \<le> q" using sorted_hd_le[OF assms(2), of q] assms(3) n by simp
  moreover have "q \<le> fst (last ns)"
    using key_le_last[OF assms(2)] assms(3) by auto
  moreover have "(q, lin_walk ns q) \<in> set ns" using assms(2,3) by (rule lin_walk_hit)
  ultimately show ?thesis
    using assms(1) n by (auto simp: interp1d_at_def intro!: exI[of _ "lin_walk ns q"])
qed

lemma interp1d_at_returns:
  assumes "\<not> bounds_error f" "nodes f \<noteq> []"
  shows "(\<exists>r. interp1d_at f q = Inr r) \<or> interp1d_at f q = Inl NonFinite"
  using assms by (cases "nodes f") (auto simp: interp1d_at_def split: option.splits)

lemma map_err_returns:
  assumes "\<And>q. (\<exists>r. h q = Inr r) \<or> h q = Inl NonFinite"
  shows "(\<exists>rs. map_err h qs = Inr rs) \<or> map_err h qs = Inl NonFinite"
proof (induction qs)
  case (Cons q qs)
  then show ?case using assms[of q] by auto
qed simp

lemma interp1d_call_returns:
  assumes "\<not> bounds_error f" "nodes f \<noteq> []" "numpy_numeric v"
  shows "(\<exists>r. interp1d_call f v = Inr r) \<or> interp1d_call f v = Inl NonFinite"
proof (cases v)
  case (PyFloat q)
  then show ?thesis using interp1d_at_returns[OF assms(1,2), of q] by auto
next
  case (PyInt i)
  then show ?thesis using interp1d_at_returns[OF assms(1,2), of "of_int i"] assms(3) by auto
next
  case (PyArray qs)
  then show ?thesis
    using map_err_returns[of "interp1d_at f" qs] interp1d_at_returns[OF assms(1,2)] by auto
qed

lemma interp1d_at_below:
  "nodes f = p # ps \<Longrightarrow> \<not> bounds_error f \<Longrightarrow> q < fst p \<Longrightarrow> interp1d_at f q = Inr (fill_below f)"
  by (simp add: interp1d_at_def)

lemma interp1d_at_above:
  "nodes f = p # ps \<Longrightarrow> \<not> bounds_error f \<Longrightarrow> fst p \<le> fst (last (p # ps)) \<Longrightarrow>
   fst (last (p # ps)) < q \<Longrightarrow> interp1d_at f q = Inr (fill_above f)"
  by (simp add: interp1d_at_def)

lemma constructed_shape:
  assumes init: "TransInterped_init xs ys mn mx = Inr s"
  obtains g ry cum ny cdf1 where
    "g = linspace (trans_min s) (trans_max s) (length xs)"
    "ry = map (interp1d_val (all_interpolated s)) g"
    "cum = cumtrapz ry g"
    "ny = map (\<lambda>y. np_divide y (trapz ry g)) ry"
    "cdf1 = (cumtrapz_opt (map finite_part ny) g)[length g - 1 := Some 1]"
    "g \<noteq> []" "sorted g" "hd g = trans_min s" "last g = trans_max s"
    "length cum = length g" "length ny = length g" "length cdf1 = length g"
    "last cdf1 = Some 1"
    "xx s = Grid1 g" "yy_priv s = Grid1 ny" "YY s = Some cdf1"
    "probability_density s = Some \<lparr>nodes = zip g (map finite_part ny), bounds_error = False,
        fill_below = 0, fill_above = 0\<rparr>"
    "cumulative_distribution s = Some \<lparr>nodes = zip g cdf1, bounds_error = False,
        fill_below = 0, fill_above = 1\<rparr>"
    "inverse_cumulative_distribution s =
        Some (projr (interp1d_init_opt cdf1 (map Some g) True 0 0))"
    "Normalizer_calc s = Some \<lparr>nodes = zip g (map Some cum), bounds_error = False,
        fill_below = 0, fill_above = 0\<rparr>"
    "Inv_Normalizer_calc s = Some \<lparr>nodes = sort_key fst (zip cum (map Some g)),
        bounds_error = False, fill_below = 0, fill_above = 0\<rparr>"
proof -
  note b = init_Inr_built[OF init]
  define a z n where "a = trans_min s" and "z = trans_max s" and "n = length xs"
  define g where "g = linspace a z n"
  define ry where "ry = map (interp1d_val (all_interpolated s)) g"
  define cum where "cum = cumtrapz ry g"
  define ny where "ny = map (\<lambda>y. np_divide y (trapz ry g)) ry"
  define cdf0 where "cdf0 = cumtrapz_opt (map finite_part ny) g"
  define cdf1 where "cdf1 = cdf0[length g - 1 := Some 1]"
  have az: "a \<le> z" using b(11) by (simp add: a_def z_def)
  have n0: "0 < n" using b(4) by (simp add: n_def)
  have leng: "length g = n" by (simp add: g_def)
  have gne: "g \<noteq> []" using leng n0 by auto
  have sg: "sorted g" unfolding g_def using az by (rule sorted_linspace)
  have hdg: "hd g = a" unfolding g_def using n0 by (rule hd_linspace)
  have lastg: "last g = z"
  proof (cases "1 < n")
    case True
    then show ?thesis unfolding g_def by (rule last_linspace)
  next
    case False
    with n0 have n1: "n = 1" by simp
    then obtain x where xs: "xs = [x]" unfolding n_def by (cases xs) auto
    have "x \<le> a" "z \<le> x"
      using b(5-8) nanmax_ge[of x mn] nanmin_le[of x mx] by (simp_all add: a_def z_def xs)
    with az have "a = z" by simp
    then show ?thesis using n1 by (simp add: g_def linspace_def)
  qed
  have lenry: "length ry = length g" by (simp add: ry_def)
  have lencum: "length cum = length g" unfolding cum_def using lenry gne by (rule length_cumtrapz)
  have lenny: "length ny = length g" by (simp add: ny_def lenry)
  have len0: "length cdf0 = length g"
    unfolding cdf0_def using gne by (intro length_cumtrapz_opt) (simp_all add: lenny)
  have lencd: "length cdf1 = length g" by (simp add: cdf1_def len0)
  have lastcd: "last cdf1 = Some 1"
  proof -
    have "cdf0 \<noteq> []" using gne len0 by auto
    then have "last (cdf0[length cdf0 - 1 := Some 1]) = Some 1" by (simp add: last_list_update)
    then show ?thesis by (simp add: cdf1_def len0)
  qed
  have g_eq: "linspace (trans_min s) (trans_max s) (grid_len (xx (fresh xs ys mn mx))) = g"
    by (simp add: b(13) g_def a_def z_def n_def)
  have ry_eq: "map (interp1d_val (all_interpolated (fresh xs ys mn mx))) g = ry"
    by (simp add: b(14) ry_def)
  have f1: "xx s = Grid1 g"
    by (subst b(1)) (simp add: built_def Let_def g_eq)
  have f2: "yy_priv s = Grid1 ny"
    by (subst b(1)) (simp add: built_def Let_def g_eq ry_eq ny_def del: map_map)
  have f3: "YY s = Some cdf1"
    by (subst b(1)) (simp add: built_def Let_def g_eq ry_eq ny_def cdf1_def cdf0_def del: map_map)
  have f4: "probability_density s = Some \<lparr>nodes = sort_key fst (zip g (map finite_part ny)),
        bounds_error = False, fill_below = 0, fill_above = 0\<rparr>"
    by (subst b(1)) (simp add: built_def Let_def g_eq ry_eq ny_def del: map_map)
  have f5: "cumulative_distribution s = Some \<lparr>nodes = sort_key fst (zip g cdf1),
        bounds_error = False, fill_below = 0, fill_above = 1\<rparr>"
    by (subst b(1)) (simp add: built_def Let_def g_eq ry_eq ny_def cdf1_def cdf0_def del: map_map)
  have f6: "inverse_cumulative_distribution s =
        Some (projr (interp1d_init_opt cdf1 (map Some g) True 0 0))"
    by (subst b(1)) (simp add: built_def Let_def g_eq ry_eq ny_def cdf1_def cdf0_def del: map_map)
  have f7: "Normalizer_calc s = Some \<lparr>nodes = sort_key fst (zip g (map Some cum)),
        bounds_error = False, fill_below = 0, fill_above = 0\<rparr>"
    by (subst b(1)) (simp add: built_def Let_def g_eq ry_eq cum_def del: map_map)
  have f8: "Inv_Normalizer_calc s = Some \<lparr>nodes = sort_key fst (zip cum (map Some g)),
        bounds_error = False, fill_below = 0, fill_above = 0\<rparr>"
    by (subst b(1)) (simp add: built_def Let_def g_eq ry_eq cum_def del: map_map)
  show thesis
  proof (rule that[of g ry cum ny cdf1])
    show "g = linspace (trans_min s) (trans_max s) (length xs)" by (simp add: g_def a_def z_def n_def)
    show "ry = map (interp1d_val (all_interpolated s)) g" by (rule ry_def)
    show "cum = cumtrapz ry g" by (rule cum_def)
    show "ny = map (\<lambda>y. np_divide y (trapz ry g)) ry" by (rule ny_def)
    show "cdf1 = (cumtrapz_opt (map finite_part ny) g)[length g - 1 := Some 1]"
      by (simp add: cdf1_def cdf0_def)
    show "g \<noteq> []" by (rule gne)
    show "sorted g" by (rule sg)
    show "hd g = trans_min s" using hdg by (simp add: a_def)
    show "last g = trans_max s" using lastg by (simp add: z_def)
    show "length cum = length g" by (rule lencum)
    show "length ny = length g" by (rule lenny)
    show "length cdf1 = length g" by (rule lencd)
    show "last cdf1 = Some 1" by (rule lastcd)
    show "xx s = Grid1 g" by (rule f1)
    show "yy_priv s = Grid1 ny" by (rule f2)
    show "YY s = Some cdf1" by (rule f3)
    show "probability_density s = Some \<lparr>nodes = zip g (map finite_part ny), bounds_error = False,
        fill_below = 0, fill_above = 0\<rparr>"
      using f4 sg lenny by (simp add: sort_key_zip_sorted)
    show "cumulative_distribution s = Some \<lparr>nodes = zip g cdf1, bounds_error = False,
        fill_below = 0, fill_above = 1\<rparr>"
      using f5 sg lencd by (simp add: sort_key_zip_sorted)
    show "inverse_cumulative_distribution s =
        Some (projr (interp1d_init_opt cdf1 (map Some g) True 0 0))" by (rule f6)
    show "Normalizer_calc s = Some \<lparr>nodes = zip g (map Some cum), bounds_error = False,
        fill_below = 0, fill_above = 0\<rparr>"
      using f7 sg lencum by (simp add: sort_key_zip_sorted)
    show "Inv_Normalizer_calc s = Some \<lparr>nodes = sort_key fst (zip cum (map Some g)),
        bounds_error = False, fill_below = 0, fill_above = 0\<rparr>" by (rule f8)
  qed
qed

lemma interp1d_at_grid:
  assumes "nodes f = zip g vs" "length vs = length g" "g \<noteq> []" "sorted g" "\<not> bounds_error f"
  shows "q < hd g \<Longrightarrow> interp1d_at f q = Inr (fill_below f)"
    and "last g < q \<Longrightarrow> interp1d_at f q = Inr (fill_above f)"
    and "interp1d_at f (last g) = (case last vs of None \<Rightarrow> Inl NonFinite | Some r \<Rightarrow> Inr r)"
proof -
  obtain p ps where n: "zip g vs = p # ps" using assms(2,3) by (cases g; cases vs) auto
  have h: "fst p = hd g" using hd_zip_fst[OF assms(2,3)] n by simp
  have l: "last (p # ps) = (last g, last vs)" using last_zip_eq[OF assms(2,3)] n by simp
  have hl: "hd g \<le> last g" using assms(3,4) sorted_hd_le[of g "last g"] by simp
  have srt: "sorted (map fst (p # ps))" using assms(2,4) n[symmetric] by simp
  show "q < hd g \<Longrightarrow> interp1d_at f q = Inr (fill_below f)"
    using assms(1,5) n h by (simp add: interp1d_at_def)
  show "last g < q \<Longrightarrow> interp1d_at f q = Inr (fill_above f)"
    using assms(1,5) n h l hl by (simp add: interp1d_at_def)
  have "lin_walk (p # ps) (last g) = last vs"
    using lin_walk_last[OF srt, of "last g"] l by simp
  then show "interp1d_at f (last g) = (case last vs of None \<Rightarrow> Inl NonFinite | Some r \<Rightarrow> Inr r)"
    using assms(1) n h l hl by (simp add: interp1d_at_def)
qed

section \<open>Claims about the cumulative distribution\<close>

text \<open>
  C3, as stated, fails: the class takes any samples, and for the samples 2, -4, 2, 4 on the
  grid 0, 1, 2, 3 (integral 1) the cumulative sums are 0, -1, -2, 1, so that \<open>cdf\<close> falls
  from 0 at 0 to -1 at 1.
\<close>

theorem cdf_monotone_counterexample:
  "TransInterped_init [0, 1, 2, 3] [2, - 4, 2, 4] None None = Inr dipping \<and>
   cdf dipping (PyFloat 0) = Inr (Arr0 0) \<and> cdf dipping (PyFloat 1) = Inr (Arr0 (- 1))"
  unfolding dipping_def by code_simp

text \<open>
  C3, as amended. On every constructed instance the grid \<open>xx\<close> runs from \<open>trans_min\<close> to
  \<open>trans_max\<close>, \<open>cdf\<close> at its last point is exactly 1, \<open>cdf\<close> is 0 at every point strictly
  below its first point and 1 at every point strictly above its last. That \<open>cdf\<close> is
  non-decreasing in between is not claimed.
\<close>

theorem cdf_endpoints:
  assumes "TransInterped_init xs ys mn mx = Inr s"
  shows "\<exists>g. xx s = Grid1 g \<and> g \<noteq> [] \<and> hd g = trans_min s \<and> last g = trans_max s \<and>
           cdf s (PyFloat (last g)) = Inr (Arr0 1) \<and>
           (\<forall>x. x < hd g \<longrightarrow> cdf s (PyFloat x) = Inr (Arr0 0)) \<and>
           (\<forall>x. last g < x \<longrightarrow> cdf s (PyFloat x) = Inr (Arr0 1))"
proof -
  from constructed_shape[OF assms] obtain g cdf1 where
    g: "g \<noteq> []" "sorted g" "hd g = trans_min s" "last g = trans_max s" "xx s = Grid1 g"
    and c: "length cdf1 = length g" "last cdf1 = Some 1"
      "cumulative_distribution s = Some \<lparr>nodes = zip g cdf1, bounds_error = False,
        fill_below = 0, fill_above = 1\<rparr>"
    by metis
  define f where "f = \<lparr>nodes = zip g cdf1, bounds_error = False,
        fill_below = 0, fill_above = (1::rat)\<rparr>"
  have f: "nodes f = zip g cdf1" "\<not> bounds_error f" "fill_below f = 0" "fill_above f = 1"
    by (simp_all add: f_def)
  note at = interp1d_at_grid[OF f(1) c(1) g(1,2) f(2)]
  have cd: "cdf s (PyFloat q) = (case interp1d_at f q of Inl e \<Rightarrow> Inl e | Inr r \<Rightarrow> Inr (Arr0 r))" for q
    by (simp add: cdf_def c(3) f_def)
  have "cdf s (PyFloat (last g)) = Inr (Arr0 1)" by (simp add: cd at(3) c(2))
  moreover have "cdf s (PyFloat x) = Inr (Arr0 0)" if "x < hd g" for x
    using that by (simp add: cd at(1) f(3))
  moreover have "cdf s (PyFloat x) = Inr (Arr0 1)" if "last g < x" for x
    using that by (simp add: cd at(2) f(4))
  ultimately show ?thesis using g by blast
qed

theorem cdf_endpoints_witness:
  "TransInterped_init [0, 1, 2, 3] [2, - 4, 2, 4] (Some (1/2)) None
     = Inr (projr (TransInterped_init [0, 1, 2, 3] [2, - 4, 2, 4] (Some (1/2)) None)) \<and>
   xx (projr (TransInterped_init [0, 1, 2, 3] [2, - 4, 2, 4] (Some (1/2)) None))
     = Grid1 [1/2, 4/3, 13/6, 3] \<and>
   (\<exists>g. xx (projr (TransInterped_init [0, 1, 2, 3] [2, - 4, 2, 4] (Some (1/2)) None)) = Grid1 g \<and>
      g \<noteq> [] \<and>
      cdf (projr (TransInterped_init [0, 1, 2, 3] [2, - 4, 2, 4] (Some (1/2)) None))
        (PyFloat (last g)) = Inr (Arr0 1) \<and>
      (\<forall>x. x < hd g \<longrightarrow>
         cdf (projr (TransInterped_init [0, 1, 2, 3] [2, - 4, 2, 4] (Some (1/2)) None))
           (PyFloat x) = Inr (Arr0 0)) \<and>
      (\<forall>x. last g < x \<longrightarrow>
         cdf (projr (TransInterped_init [0, 1, 2, 3] [2, - 4, 2, 4] (Some (1/2)) None))
           (PyFloat x) = Inr (Arr0 1)))"
proof -
  have i: "TransInterped_init [0, 1, 2, 3] [2, - 4, 2, 4] (Some (1/2)) None
     = Inr (projr (TransInterped_init [0, 1, 2, 3] [2, - 4, 2, 4] (Some (1/2)) None))"
    by code_simp
  have x: "xx (projr (TransInterped_init [0, 1, 2, 3] [2, - 4, 2, 4] (Some (1/2)) None))
     = Grid1 [1/2, 4/3, 13/6, 3]"
    by code_simp
  from cdf_endpoints[OF i] i x show ?thesis by blast
qed

end
